theory Spec2Isabelle
  imports Complex_Main
begin

section \<open>Data model\<close>

text \<open>
  The program (\<^verbatim>\<open>python_infite.py\<close>) keeps every beat as a dictionary with the keys
  \<^verbatim>\<open>index\<close>, \<^verbatim>\<open>start\<close>, \<^verbatim>\<open>duration\<close>, \<^verbatim>\<open>timbre\<close>, \<^verbatim>\<open>pitch\<close>, \<^verbatim>\<open>loudness_max\<close>,
  \<^verbatim>\<open>loudness_start\<close>, \<^verbatim>\<open>confidence\<close> and \<^verbatim>\<open>neighbors\<close>; a neighbour is a dictionary
  with the keys \<^verbatim>\<open>dest\<close> and \<^verbatim>\<open>distance\<close>. A floating-point number is modelled as
  the real number it denotes, a numpy vector as a list of reals, and the exceptions that
  the modelled code can raise as values of \<open>error\<close>. The distances of the similarity
  metric are computed over the reals; where a float is truncated to a sample count or a
  sample position (\<^verbatim>\<open>int(...)\<close>), the rounding of every binary64 operation is modelled.
\<close>

datatype error = ValueError | IndexError

record neighbor =
  dest :: nat
  distance :: real

record beat =
  index :: nat
  start :: real
  duration :: real
  timbre :: "real list"
  pitch :: "real list"
  loudness_max :: real
  loudness_start :: real
  confidence :: real
  neighbors :: "neighbor list"

section \<open>Similarity metric\<close>

text \<open>The weight table \<^verbatim>\<open>WEIGHTS\<close>.\<close>

definition W_timbre :: real where "W_timbre = 1"
definition W_pitch :: real where "W_pitch = 10"
definition W_loudness_start :: real where "W_loudness_start = 1"
definition W_loudness_max :: real where "W_loudness_max = 1"
definition W_duration :: real where "W_duration = 100"
definition W_confidence :: real where "W_confidence = 1"

text \<open>
  \<^verbatim>\<open>v1 - v2\<close> on one-dimensional numpy arrays: elementwise when the lengths agree, a
  length-one operand is broadcast, and any other pair of shapes raises \<^verbatim>\<open>ValueError\<close>.
\<close>

definition np_sub :: "real list \<Rightarrow> real list \<Rightarrow> error + real list" where
  "np_sub v1 v2 =
     (if length v1 = length v2 then Inr (map (\<lambda>(a, b). a - b) (zip v1 v2))
      else if length v1 = 1 then Inr (map (\<lambda>b. hd v1 - b) v2)
      else if length v2 = 1 then Inr (map (\<lambda>a. a - hd v2) v1)
      else Inl ValueError)"

text \<open>\<^verbatim>\<open>np.linalg.norm\<close> of a one-dimensional array: the 2-norm.\<close>

definition np_linalg_norm :: "real list \<Rightarrow> real" where
  "np_linalg_norm v = sqrt (sum_list (map (\<lambda>x. x\<^sup>2) v))"

definition euclidean_distance :: "real list \<Rightarrow> real list \<Rightarrow> error + real" where
  "euclidean_distance v1 v2 =
     (case np_sub v1 v2 of Inl e \<Rightarrow> Inl e | Inr d \<Rightarrow> Inr (np_linalg_norm d))"

definition get_seg_distances :: "beat \<Rightarrow> beat \<Rightarrow> error + real" where
  "get_seg_distances seg1 seg2 =
     (case euclidean_distance (timbre seg1) (timbre seg2) of
        Inl e \<Rightarrow> Inl e
      | Inr timbre_d \<Rightarrow>
          (case euclidean_distance (pitch seg1) (pitch seg2) of
             Inl e \<Rightarrow> Inl e
           | Inr pitch_d \<Rightarrow>
               (let sloudStart = \<bar>loudness_start seg1 - loudness_start seg2\<bar>;
                    sloudMax = \<bar>loudness_max seg1 - loudness_max seg2\<bar>;
                    duration_d = \<bar>duration seg1 - duration seg2\<bar>;
                    confidence_d = \<bar>confidence seg1 - confidence seg2\<bar>
                in Inr (timbre_d * W_timbre +
                        pitch_d * W_pitch +
                        sloudStart * W_loudness_start +
                        sloudMax * W_loudness_max +
                        duration_d * W_duration +
                        confidence_d * W_confidence))))"

section \<open>Graph construction\<close>

text \<open>
  The body of the inner loop of \<^verbatim>\<open>generate_graph\<close> up to the threshold test: the
  similarity distance of the two beats, plus 100 when their \<^verbatim>\<open>index\<close> fields differ
  modulo 4.
\<close>

definition edge_distance :: "beat \<Rightarrow> beat \<Rightarrow> error + real" where
  "edge_distance b1 b2 =
     (case get_seg_distances b1 b2 of
        Inl e \<Rightarrow> Inl e
      | Inr d \<Rightarrow> Inr (if index b1 mod 4 \<noteq> index b2 mod 4 then d + 100 else d))"

text \<open>
  The inner loop \<^verbatim>\<open>for j, b2 in enumerate(beats)\<close> for a fixed \<open>i\<close> and \<open>b1\<close>; the
  accumulator is \<^verbatim>\<open>b1['neighbors']\<close>, to which the edges are appended. The counter
  \<^verbatim>\<open>edge_count\<close> is only printed and is left out.
\<close>

fun graph_row :: "real \<Rightarrow> nat \<Rightarrow> beat \<Rightarrow> (nat \<times> beat) list \<Rightarrow> neighbor list \<Rightarrow> error + neighbor list" where
  "graph_row threshold i b1 [] ns = Inr ns"
| "graph_row threshold i b1 ((j, b2) # rest) ns =
     (if i = j then graph_row threshold i b1 rest ns
      else (case edge_distance b1 b2 of
              Inl e \<Rightarrow> Inl e
            | Inr d \<Rightarrow>
                (if d < threshold
                 then graph_row threshold i b1 rest (ns @ [\<lparr>dest = j, distance = d\<rparr>])
                 else graph_row threshold i b1 rest ns)))"

text \<open>
  The outer loop \<^verbatim>\<open>for i, b1 in enumerate(beats)\<close>; the list of beats is the state,
  and row \<open>i\<close> replaces the neighbours of beat \<open>i\<close> in it.
\<close>

fun graph_rows :: "real \<Rightarrow> nat list \<Rightarrow> beat list \<Rightarrow> error + beat list" where
  "graph_rows threshold [] beats = Inr beats"
| "graph_rows threshold (i # is) beats =
     (case graph_row threshold i (beats ! i) (enumerate 0 beats) (neighbors (beats ! i)) of
        Inl e \<Rightarrow> Inl e
      | Inr ns \<Rightarrow> graph_rows threshold is (beats[i := (beats ! i)\<lparr>neighbors := ns\<rparr>]))"

definition generate_graph :: "beat list \<Rightarrow> real \<Rightarrow> error + beat list" where
  "generate_graph beats threshold = graph_rows threshold [0..<length beats] beats"

section \<open>Binary64 arithmetic\<close>

text \<open>Rounding of a real to the nearest integer, a tie going to the even one.\<close>

definition round_half_even :: "real \<Rightarrow> int" where
  "round_half_even y =
     (let f = \<lfloor>y\<rfloor>
      in if y - of_int f < 1 / 2 then f
         else if 1 / 2 < y - of_int f then f + 1
         else if even f then f else f + 1)"

text \<open>
  Rounding of a real to binary64, the format of Python's \<^verbatim>\<open>float\<close> and of
  \<^verbatim>\<open>numpy.float64\<close>: the nearest number with a significand of 53 bits, a tie going to
  the even significand. The exponent is not bounded: overflow to infinity (beyond about
  \<open>1.8e308\<close>) and the reduced precision of subnormal numbers (below about \<open>2.3e-308\<close>) are
  left out.
\<close>

definition fl64 :: "real \<Rightarrow> real" where
  "fl64 x =
     (if x = 0 then 0
      else (let e = \<lfloor>log 2 \<bar>x\<bar>\<rfloor> - 52
            in of_int (round_half_even (x / 2 powr of_int e)) * 2 powr of_int e))"

text \<open>The float operations \<^verbatim>\<open>a * b\<close> and \<^verbatim>\<open>a + b\<close>: the exact result, rounded.\<close>

definition fmul :: "real \<Rightarrow> real \<Rightarrow> real" where
  "fmul a b = fl64 (a * b)"

definition fadd :: "real \<Rightarrow> real \<Rightarrow> real" where
  "fadd a b = fl64 (a + b)"

section \<open>Track generation\<close>

text \<open>\<^verbatim>\<open>int(x)\<close> on a float: truncation towards zero.\<close>

definition py_int :: "real \<Rightarrow> int" where
  "py_int x = (if 0 \<le> x then \<lfloor>x\<rfloor> else \<lceil>x\<rceil>)"

text \<open>
  The slice \<^verbatim>\<open>xs[a:b]\<close>: a negative bound counts from the end, and both bounds are
  clipped to the sequence; a slice never raises.
\<close>

definition py_slice :: "'a list \<Rightarrow> int \<Rightarrow> int \<Rightarrow> 'a list" where
  "py_slice xs a b =
     (let n = int (length xs);
          lo = (if a < 0 then max 0 (n + a) else min a n);
          hi = (if b < 0 then max 0 (n + b) else min b n)
      in take (nat (hi - lo)) (drop (nat lo) xs))"

text \<open>
  The module \<^verbatim>\<open>random\<close> is a library, taken as a parameter: a state of type \<open>'s\<close>
  with \<^verbatim>\<open>random.random()\<close>, which returns a float and the next state, and the position
  that \<^verbatim>\<open>random.choice\<close> picks in a sequence of the given length.
\<close>

record 's random_source =
  random_random :: "'s \<Rightarrow> real \<times> 's"
  random_choice :: "'s \<Rightarrow> nat \<Rightarrow> nat \<times> 's"

text \<open>The variables of the loop of \<^verbatim>\<open>generate_infinite_track\<close>.\<close>

record 's gen_state =
  rng_state :: 's
  generated_samples :: nat
  output_segments :: "real list list"
  current_index :: nat

text \<open>
  The samples \<^verbatim>\<open>y[start_sample:end_sample]\<close> of a beat, with
  \<^verbatim>\<open>start_sample = int(beat['start'] * sr)\<close> and
  \<^verbatim>\<open>end_sample = int((beat['start'] + beat['duration']) * sr)\<close>.
\<close>

definition beat_segment :: "real list \<Rightarrow> real \<Rightarrow> beat \<Rightarrow> real list" where
  "beat_segment y sr b =
     (let start_sample = py_int (fmul (start b) sr);
          end_sample = py_int (fmul (fadd (start b) (duration b)) sr)
      in py_slice y start_sample end_sample)"

text \<open>
  One pass through the body of the \<^verbatim>\<open>while\<close> loop. \<^verbatim>\<open>beats[current_index]\<close> raises
  \<^verbatim>\<open>IndexError\<close> on an empty list; \<^verbatim>\<open>random.random()\<close> is only called when the beat
  has neighbours, and \<^verbatim>\<open>random.choice\<close> only when the draw is below the probability.
\<close>

definition iteration ::
  "'s random_source \<Rightarrow> real list \<Rightarrow> real \<Rightarrow> beat list \<Rightarrow> real \<Rightarrow> 's gen_state \<Rightarrow> error + 's gen_state" where
  "iteration src y sr beats branch_probability st =
     (let ci = (if current_index st \<ge> length beats then 0 else current_index st)
      in if ci \<ge> length beats then Inl IndexError
         else
           (let b = beats ! ci;
                segment = beat_segment y sr b;
                segs = output_segments st @ [segment];
                gen = generated_samples st + length segment;
                nbrs = neighbors b
            in if nbrs \<noteq> [] then
                 (case random_random src (rng_state st) of
                    (u, s1) \<Rightarrow>
                      if u < branch_probability then
                        (case random_choice src s1 (length nbrs) of
                           (k, s2) \<Rightarrow>
                             if k < length nbrs
                             then Inr \<lparr>rng_state = s2, generated_samples = gen,
                                       output_segments = segs, current_index = dest (nbrs ! k)\<rparr>
                             else Inl IndexError)
                      else Inr \<lparr>rng_state = s1, generated_samples = gen,
                                output_segments = segs, current_index = ci + 1\<rparr>)
               else Inr \<lparr>rng_state = rng_state st, generated_samples = gen,
                         output_segments = segs, current_index = ci + 1\<rparr>))"

text \<open>
  The loop \<^verbatim>\<open>while generated_samples < target_samples\<close>. It need not end, so it is
  a partial function: \<open>None\<close> is the run that never leaves the loop.
\<close>

partial_function (option) generation_loop ::
  "'s random_source \<Rightarrow> real list \<Rightarrow> real \<Rightarrow> beat list \<Rightarrow> real \<Rightarrow> int \<Rightarrow> 's gen_state
     \<Rightarrow> (error + 's gen_state) option" where
  "generation_loop src y sr beats branch_probability target_samples st =
     (if int (generated_samples st) < target_samples then
        (case iteration src y sr beats branch_probability st of
           Inl e \<Rightarrow> Some (Inl e)
         | Inr st' \<Rightarrow> generation_loop src y sr beats branch_probability target_samples st')
      else Some (Inr st))"

text \<open>\<^verbatim>\<open>target_samples = int(duration_minutes * 60 * sr)\<close>: two float products.\<close>

definition target_samples :: "real \<Rightarrow> real \<Rightarrow> int" where
  "target_samples duration_minutes sr = py_int (fmul (fmul duration_minutes 60) sr)"

text \<open>
  \<^verbatim>\<open>generate_infinite_track\<close>, up to the audio handed to \<^verbatim>\<open>sf.write\<close>.
  \<^verbatim>\<open>np.concatenate\<close> raises \<^verbatim>\<open>ValueError\<close> on an empty list of segments.
\<close>

definition generate_infinite_track ::
  "'s random_source \<Rightarrow> 's \<Rightarrow> real list \<Rightarrow> real \<Rightarrow> beat list \<Rightarrow> real \<Rightarrow> real
     \<Rightarrow> (error + real list) option" where
  "generate_infinite_track src s0 y sr beats duration_minutes branch_probability =
     (let target = target_samples duration_minutes sr
      in case generation_loop src y sr beats branch_probability target
                \<lparr>rng_state = s0, generated_samples = 0, output_segments = [], current_index = 0\<rparr> of
           None \<Rightarrow> None
         | Some (Inl e) \<Rightarrow> Some (Inl e)
         | Some (Inr st) \<Rightarrow>
             (if output_segments st = [] then Some (Inl ValueError)
              else
                (let full_audio = concat (output_segments st)
                 in Some (Inr (if int (length full_audio) > target
                               then py_slice full_audio 0 target
                               else full_audio)))))"


section \<open>Auxiliary notions for the graph\<close>

text \<open>The distance that the inner loop compares with the threshold, when it is computed.\<close>

definition edge_value :: "beat \<Rightarrow> beat \<Rightarrow> real" where
  "edge_value b1 b2 = (case edge_distance b1 b2 of Inl e \<Rightarrow> 0 | Inr d \<Rightarrow> d)"

text \<open>The edges that row \<open>i\<close> of the graph build appends, in the order of the scan.\<close>

definition row_of :: "beat list \<Rightarrow> real \<Rightarrow> nat \<Rightarrow> neighbor list" where
  "row_of beats threshold i =
     map (\<lambda>j. \<lparr>dest = j, distance = edge_value (beats ! i) (beats ! j)\<rparr>)
       (filter (\<lambda>j. j \<noteq> i \<and> edge_value (beats ! i) (beats ! j) < threshold) [0..<length beats])"

text \<open>A beat without its neighbours: what the similarity metric reads.\<close>

definition features :: "beat \<Rightarrow> beat" where
  "features b = b\<lparr>neighbors := []\<rparr>"




section \<open>Example inputs\<close>

text \<open>Five half-second beats with equal features, as the analysis numbers them.\<close>

definition example_beat :: "nat \<Rightarrow> beat" where
  "example_beat k =
     \<lparr>index = k, start = real k / 2, duration = 1 / 2,
      timbre = [0, 0, 0, 0, 0, 0, 0, 0, 0, 0, 0, 0],
      pitch = [0, 0, 0, 0, 0, 0, 0, 0, 0, 0, 0, 0],
      loudness_max = 0, loudness_start = 0, confidence = 1, neighbors = []\<rparr>"

definition example_beats :: "beat list" where
  "example_beats = map example_beat [0, 1, 2, 3, 4]"


text \<open>A random source that always draws \<open>u\<close> and always picks position \<open>k\<close>.\<close>

definition const_source :: "real \<Rightarrow> nat \<Rightarrow> unit random_source" where
  "const_source u k = \<lparr>random_random = (\<lambda>s. (u, s)), random_choice = (\<lambda>s n. (k, s))\<rparr>"

text \<open>A random source that counts its draws in its state and draws the same values.\<close>

definition counting_source :: "real \<Rightarrow> nat \<Rightarrow> nat random_source" where
  "counting_source u k =
     \<lparr>random_random = (\<lambda>s. (u, Suc s)), random_choice = (\<lambda>s n. (k, Suc s))\<rparr>"

text \<open>
  Beats of 1/131072 seconds (about 7.6 microseconds): at 22050 Hz each of them spans no
  sample. Their start times and durations are binary64 numbers.
\<close>

definition tiny_beat :: "nat \<Rightarrow> beat" where
  "tiny_beat k =
     \<lparr>index = k, start = real k / 2 ^ 17, duration = 1 / 2 ^ 17,
      timbre = [0, 0, 0, 0, 0, 0, 0, 0, 0, 0, 0, 0],
      pitch = [0, 0, 0, 0, 0, 0, 0, 0, 0, 0, 0, 0],
      loudness_max = 0, loudness_start = 0, confidence = 1, neighbors = []\<rparr>"

text \<open>Ten samples: two and a half seconds at 4 Hz, the span of the five example beats.\<close>

definition example_samples :: "real list" where
  "example_samples = [1, 2, 3, 4, 5, 6, 7, 8, 9, 10]"

text \<open>The example beats with the edges of the graph at threshold 60.\<close>

definition example_graph :: "beat list" where
  "example_graph =
     [(example_beat 0)\<lparr>neighbors := [\<lparr>dest = 4, distance = 0\<rparr>]\<rparr>,
      example_beat 1, example_beat 2, example_beat 3,
      (example_beat 4)\<lparr>neighbors := [\<lparr>dest = 0, distance = 0\<rparr>]\<rparr>]"

section \<open>Auxiliary notions for the generation\<close>

text \<open>The state in which \<^verbatim>\<open>generate_infinite_track\<close> enters its loop.\<close>

definition initial_state :: "'s \<Rightarrow> 's gen_state" where
  "initial_state s0 =
     \<lparr>rng_state = s0, generated_samples = 0, output_segments = [], current_index = 0\<rparr>"


text \<open>
  Two loop states that agree on everything but the states of their random sources, which
  are related by \<open>Q\<close>.
\<close>

definition state_rel :: "('s \<Rightarrow> 't \<Rightarrow> bool) \<Rightarrow> 's gen_state \<Rightarrow> 't gen_state \<Rightarrow> bool" where
  "state_rel Q a b \<longleftrightarrow>
     Q (rng_state a) (rng_state b) \<and> generated_samples a = generated_samples b \<and>
     output_segments a = output_segments b \<and> current_index a = current_index b"

text \<open>
  Two random sources deliver identical streams of draws from states related by \<open>Q\<close>:
  every call returns the same value on both sides and leads to related states.
\<close>

definition same_draws :: "('s \<Rightarrow> 't \<Rightarrow> bool) \<Rightarrow> 's random_source \<Rightarrow> 't random_source \<Rightarrow> bool" where
  "same_draws Q src1 src2 \<longleftrightarrow>
     (\<forall>a b. Q a b \<longrightarrow>
        fst (random_random src1 a) = fst (random_random src2 b) \<and>
        Q (snd (random_random src1 a)) (snd (random_random src2 b))) \<and>
     (\<forall>a b n. Q a b \<longrightarrow>
        fst (random_choice src1 a n) = fst (random_choice src2 b n) \<and>
        Q (snd (random_choice src1 a n)) (snd (random_choice src2 b n)))"


section \<open>The similarity metric\<close>

lemma norm_sub_eq_len:
  "length v1 = length v2 \<Longrightarrow>
   sum_list (map (\<lambda>x. x\<^sup>2) (map (\<lambda>(a, b). a - b) (zip v1 v2))) =
   sum_list (map (\<lambda>x::real. x\<^sup>2) (map (\<lambda>(a, b). a - b) (zip v2 v1)))"
  by (induction v1 v2 rule: list_induct2) (simp_all add: power2_commute)

lemma norm_sub_bcast:
  "sum_list (map (power2 \<circ> (-) c) v) = sum_list (map (power2 \<circ> (\<lambda>a::real. a - c)) v)"
  by (induction v) (simp_all add: power2_commute)

lemma euclidean_distance_sym: "euclidean_distance v1 v2 = euclidean_distance v2 v1"
proof (cases "length v1 = length v2")
  case True
  then show ?thesis
    using norm_sub_eq_len [OF True]
    by (simp add: euclidean_distance_def np_sub_def np_linalg_norm_def)
next
  case False
  then show ?thesis
    by (auto simp: euclidean_distance_def np_sub_def np_linalg_norm_def norm_sub_bcast)
qed

text \<open>
  Claim C8: the similarity distance is symmetric, \<open>get_seg_distances a b\<close> equals
  \<open>get_seg_distances b a\<close> for every pair of beats, including the case where the
  vector shapes are incompatible and both calls raise.
\<close>

theorem get_seg_distances_symmetric: "get_seg_distances a b = get_seg_distances b a"
  by (simp add: get_seg_distances_def euclidean_distance_sym [of "timbre a"]
      euclidean_distance_sym [of "pitch a"] abs_minus_commute split: sum.splits)




lemma edge_distance_features: "edge_distance (features a) (features b) = edge_distance a b"
  by (simp add: edge_distance_def get_seg_distances_def features_def Let_def cong: sum.case_cong)

lemma edge_distance_cong:
  "features a = features a' \<Longrightarrow> features b = features b' \<Longrightarrow> edge_distance a b = edge_distance a' b'"
  by (metis edge_distance_features)

lemma graph_row_Inr:
  "graph_row t i b1 rest ns = Inr ns' \<Longrightarrow>
   ns' = ns @ map (\<lambda>(j, b2). \<lparr>dest = j, distance = edge_value b1 b2\<rparr>)
               (filter (\<lambda>(j, b2). j \<noteq> i \<and> edge_value b1 b2 < t) rest)"
proof (induction rest arbitrary: ns)
  case Nil
  then show ?case by simp
next
  case (Cons p rest)
  obtain j b2 where p: "p = (j, b2)" by (cases p)
  show ?case
  proof (cases "i = j")
    case True
    with Cons p show ?thesis by simp
  next
    case False
    with Cons.prems p obtain d where d: "edge_distance b1 b2 = Inr d"
      by (auto split: sum.splits)
    then have ev: "edge_value b1 b2 = d" by (simp add: edge_value_def)
    show ?thesis
    proof (cases "d < t")
      case True
      with Cons.prems p False d
      have "graph_row t i b1 rest (ns @ [\<lparr>dest = j, distance = d\<rparr>]) = Inr ns'" by simp
      from Cons.IH [OF this] p False ev True show ?thesis by simp
    next
      case nlt: False
      with Cons.prems p False d have "graph_row t i b1 rest ns = Inr ns'" by simp
      from Cons.IH [OF this] p False ev nlt show ?thesis by simp
    qed
  qed
qed

lemma graph_row_total:
  "(\<And>j b2. (j, b2) \<in> set rest \<Longrightarrow> j \<noteq> i \<Longrightarrow> \<exists>d. edge_distance b1 b2 = Inr d) \<Longrightarrow>
   \<exists>ns'. graph_row t i b1 rest ns = Inr ns'"
proof (induction rest arbitrary: ns)
  case Nil
  then show ?case by simp
next
  case (Cons p rest)
  obtain j b2 where p: "p = (j, b2)" by (cases p)
  have IH: "\<exists>ns'. graph_row t i b1 rest ns = Inr ns'" for ns
    using Cons.IH Cons.prems by (meson list.set_intros(2))
  show ?case
  proof (cases "i = j")
    case True
    with p IH show ?thesis by simp
  next
    case False
    with Cons.prems [of j b2] p obtain d where "edge_distance b1 b2 = Inr d" by auto
    with p False IH show ?thesis by simp
  qed
qed

lemma enumerate_as_map: "enumerate 0 xs = map (\<lambda>j. (j, xs ! j)) [0..<length xs]"
  by (rule nth_equalityI) (simp_all add: nth_enumerate_eq)

lemma row_over_enumerate:
  "map (\<lambda>(j, b2). \<lparr>dest = j, distance = edge_value b1 b2\<rparr>)
       (filter (\<lambda>(j, b2). j \<noteq> i \<and> edge_value b1 b2 < t) (enumerate 0 beats)) =
   map (\<lambda>j. \<lparr>dest = j, distance = edge_value b1 (beats ! j)\<rparr>)
       (filter (\<lambda>j. j \<noteq> i \<and> edge_value b1 (beats ! j) < t) [0..<length beats])"
  by (simp add: enumerate_as_map filter_map comp_def)

lemma edge_value_cong:
  "features a = features a' \<Longrightarrow> features b = features b' \<Longrightarrow> edge_value a b = edge_value a' b'"
  by (simp add: edge_value_def edge_distance_cong [of a a' b b'])

lemma row_of_cong:
  assumes "length bs = length bs'" and "\<And>k. k < length bs \<Longrightarrow> features (bs ! k) = features (bs' ! k)"
    and "i < length bs"
  shows "row_of bs t i = row_of bs' t i"
proof -
  have "edge_value (bs ! i) (bs ! j) = edge_value (bs' ! i) (bs' ! j)" if "j < length bs" for j
    using assms that by (intro edge_value_cong) auto
  then show ?thesis
    unfolding row_of_def using assms(1)
    by (auto intro!: map_cong filter_cong)
qed

lemma graph_rows_Inr:
  assumes "graph_rows t is bs = Inr g" and "distinct is" and "\<And>i. i \<in> set is \<Longrightarrow> i < length bs"
  shows "length g = length bs \<and>
         (\<forall>k<length bs. g ! k = (if k \<in> set is
            then (bs ! k)\<lparr>neighbors := neighbors (bs ! k) @ row_of bs t k\<rparr> else bs ! k))"
  using assms
proof (induction "is" arbitrary: bs)
  case Nil
  then show ?case by simp
next
  case (Cons i "is")
  have i: "i < length bs" using Cons.prems(3) by simp
  from Cons.prems(1) obtain ns where
    row: "graph_row t i (bs ! i) (enumerate 0 bs) (neighbors (bs ! i)) = Inr ns" and
    rest: "graph_rows t is (bs[i := (bs ! i)\<lparr>neighbors := ns\<rparr>]) = Inr g"
    by (auto split: sum.splits)
  let ?bs = "bs[i := (bs ! i)\<lparr>neighbors := ns\<rparr>]"
  have ns: "ns = neighbors (bs ! i) @ row_of bs t i"
    using graph_row_Inr [OF row] by (simp add: row_over_enumerate row_of_def)
  have feat: "features (?bs ! k) = features (bs ! k)" if "k < length bs" for k
    using that by (cases "k = i") (simp_all add: features_def)
  have rows: "row_of ?bs t k = row_of bs t k" if "k < length bs" for k
    using that feat by (intro row_of_cong) simp_all
  have IH: "length g = length ?bs \<and>
         (\<forall>k<length ?bs. g ! k = (if k \<in> set is
            then (?bs ! k)\<lparr>neighbors := neighbors (?bs ! k) @ row_of ?bs t k\<rparr> else ?bs ! k))"
    using Cons.IH [OF rest] Cons.prems(2,3) by simp
  have "g ! k = (if k \<in> set (i # is)
            then (bs ! k)\<lparr>neighbors := neighbors (bs ! k) @ row_of bs t k\<rparr> else bs ! k)"
    if k: "k < length bs" for k
  proof (cases "k = i")
    case True
    with Cons.prems(2) have "k \<notin> set is" by simp
    with IH k True ns show ?thesis by simp
  next
    case False
    with IH k rows [OF k] show ?thesis by simp
  qed
  with IH show ?case by simp
qed

lemma graph_rows_total:
  assumes "\<And>i j. i < length bs \<Longrightarrow> j < length bs \<Longrightarrow> i \<noteq> j \<Longrightarrow> \<exists>d. edge_distance (bs ! i) (bs ! j) = Inr d"
    and "\<And>i. i \<in> set is \<Longrightarrow> i < length bs"
  shows "\<exists>g. graph_rows t is bs = Inr g"
  using assms
proof (induction "is" arbitrary: bs)
  case Nil
  then show ?case by simp
next
  case (Cons i "is")
  have i: "i < length bs" using Cons.prems(2) by simp
  have "\<exists>ns. graph_row t i (bs ! i) (enumerate 0 bs) (neighbors (bs ! i)) = Inr ns"
  proof (rule graph_row_total)
    fix j b2 assume "(j, b2) \<in> set (enumerate 0 bs)" and "j \<noteq> i"
    then show "\<exists>d. edge_distance (bs ! i) b2 = Inr d"
      using Cons.prems(1) [of i j] i by (auto simp: in_set_enumerate_eq)
  qed
  then obtain ns where row: "graph_row t i (bs ! i) (enumerate 0 bs) (neighbors (bs ! i)) = Inr ns" ..
  let ?bs = "bs[i := (bs ! i)\<lparr>neighbors := ns\<rparr>]"
  have feat: "features (?bs ! k) = features (bs ! k)" if "k < length bs" for k
    using that by (cases "k = i") (simp_all add: features_def)
  have "\<exists>g. graph_rows t is ?bs = Inr g"
  proof (rule Cons.IH)
    fix a b assume ab: "a < length ?bs" "b < length ?bs" "a \<noteq> b"
    then have "edge_distance (?bs ! a) (?bs ! b) = edge_distance (bs ! a) (bs ! b)"
      by (intro edge_distance_cong feat) simp_all
    with Cons.prems(1) [of a b] ab show "\<exists>d. edge_distance (?bs ! a) (?bs ! b) = Inr d" by simp
  next
    fix k assume "k \<in> set is"
    then show "k < length ?bs" using Cons.prems(2) by simp
  qed
  with row show ?case by simp
qed

lemma generate_graph_Inr:
  assumes "generate_graph beats t = Inr g"
  shows "length g = length beats"
    and "k < length beats \<Longrightarrow> g ! k = (beats ! k)\<lparr>neighbors := neighbors (beats ! k) @ row_of beats t k\<rparr>"
  using graph_rows_Inr [of t "[0..<length beats]" beats g] assms
  by (simp_all add: generate_graph_def)

lemma graph_row_pairs_ok:
  "graph_row t i b1 rest ns = Inr ns' \<Longrightarrow> (j, b2) \<in> set rest \<Longrightarrow> j \<noteq> i \<Longrightarrow>
   \<exists>d. edge_distance b1 b2 = Inr d"
proof (induction rest arbitrary: ns)
  case Nil
  then show ?case by simp
next
  case (Cons p rest)
  obtain j' b' where p: "p = (j', b')" by (cases p)
  show ?case
  proof (cases "i = j'")
    case True
    with Cons p show ?thesis by auto
  next
    case False
    with Cons.prems(1) p obtain d where d: "edge_distance b1 b' = Inr d"
      by (auto split: sum.splits)
    show ?thesis
    proof (cases "(j, b2) = p")
      case True
      with p d show ?thesis by auto
    next
      case ne: False
      with Cons.prems(2) have mem: "(j, b2) \<in> set rest" by simp
      from Cons.prems(1) p False d obtain ns1 where "graph_row t i b1 rest ns1 = Inr ns'"
        by (cases "d < t") auto
      from Cons.IH [OF this mem Cons.prems(3)] show ?thesis .
    qed
  qed
qed

lemma graph_rows_pairs_ok:
  assumes "graph_rows t is bs = Inr g" and "\<And>i. i \<in> set is \<Longrightarrow> i < length bs"
    and "i \<in> set is" and "j < length bs" and "j \<noteq> i"
  shows "\<exists>d. edge_distance (bs ! i) (bs ! j) = Inr d"
  using assms
proof (induction "is" arbitrary: bs)
  case Nil
  then show ?case by simp
next
  case (Cons a "is")
  have a: "a < length bs" using Cons.prems(2) by simp
  from Cons.prems(1) obtain ns where
    row: "graph_row t a (bs ! a) (enumerate 0 bs) (neighbors (bs ! a)) = Inr ns" and
    rest: "graph_rows t is (bs[a := (bs ! a)\<lparr>neighbors := ns\<rparr>]) = Inr g"
    by (auto split: sum.splits)
  let ?bs = "bs[a := (bs ! a)\<lparr>neighbors := ns\<rparr>]"
  have feat: "features (?bs ! k) = features (bs ! k)" if "k < length bs" for k
    using that by (cases "k = a") (simp_all add: features_def)
  show ?case
  proof (cases "i = a")
    case True
    have "(j, bs ! j) \<in> set (enumerate 0 bs)"
      using Cons.prems(4) by (simp add: in_set_enumerate_eq)
    from graph_row_pairs_ok [OF row this] Cons.prems(5) True show ?thesis by simp
  next
    case False
    with Cons.prems(3) have mem: "i \<in> set is" by simp
    have "\<exists>d. edge_distance (?bs ! i) (?bs ! j) = Inr d"
      using Cons.IH [OF rest _ mem] Cons.prems(2,4,5) by simp
    moreover have "i < length bs" using Cons.prems(2,3) by simp
    then have "edge_distance (?bs ! i) (?bs ! j) = edge_distance (bs ! i) (bs ! j)"
      using Cons.prems(4) by (intro edge_distance_cong feat) simp_all
    ultimately show ?thesis by simp
  qed
qed

lemma generate_graph_pairs_ok:
  assumes "generate_graph beats t = Inr g" and "i < length beats" and "j < length beats" and "j \<noteq> i"
  shows "\<exists>d. edge_distance (beats ! i) (beats ! j) = Inr d"
  using graph_rows_pairs_ok [of t "[0..<length beats]" beats g i j] assms
  by (simp add: generate_graph_def)

lemma generate_graph_total:
  assumes "\<And>i j. i < length beats \<Longrightarrow> j < length beats \<Longrightarrow> i \<noteq> j \<Longrightarrow>
             \<exists>d. edge_distance (beats ! i) (beats ! j) = Inr d"
  shows "\<exists>g. generate_graph beats t = Inr g"
  unfolding generate_graph_def using assms by (intro graph_rows_total) simp_all

lemma generate_graph_threshold_independent:
  assumes "generate_graph beats t1 = Inr g1"
  shows "\<exists>g2. generate_graph beats t2 = Inr g2"
  by (rule generate_graph_total) (metis generate_graph_pairs_ok [OF assms])

lemma euclidean_distance_same_length:
  "length v1 = length v2 \<Longrightarrow> \<exists>d. euclidean_distance v1 v2 = Inr d"
  by (simp add: euclidean_distance_def np_sub_def)

lemma edge_distance_same_length:
  "length (timbre a) = length (timbre b) \<Longrightarrow> length (pitch a) = length (pitch b) \<Longrightarrow>
   \<exists>d. edge_distance a b = Inr d"
  using euclidean_distance_same_length [of "timbre a" "timbre b"]
    euclidean_distance_same_length [of "pitch a" "pitch b"]
  by (auto simp: edge_distance_def get_seg_distances_def Let_def)

lemma row_of_mono: "t1 \<le> t2 \<Longrightarrow> set (row_of beats t1 i) \<subseteq> set (row_of beats t2 i)"
  by (auto simp: row_of_def)











lemma example_beats_length: "length example_beats = 5"
  by (simp add: example_beats_def)


lemma example_beats_dims:
  "\<forall>b\<in>set example_beats. length (timbre b) = 12 \<and> length (pitch b) = 12"
  by (simp add: example_beats_def example_beat_def)



lemma example_graph_exists: "\<exists>g. generate_graph example_beats t = Inr g"
proof (rule generate_graph_total)
  fix a b assume "a < length example_beats" "b < length example_beats"
  with example_beats_dims show "\<exists>d. edge_distance (example_beats ! a) (example_beats ! b) = Inr d"
    by (intro edge_distance_same_length) simp_all
qed




text \<open>
  Claim C7: for thresholds \<open>t1 \<le> t2\<close>, when the graph build succeeds at \<open>t1\<close> it succeeds
  at \<open>t2\<close>, and every edge of every beat at \<open>t1\<close> is an edge of that beat at \<open>t2\<close>: the
  edge set never shrinks when the threshold grows.
\<close>

theorem threshold_monotone:
  assumes "t1 \<le> t2" and "generate_graph beats t1 = Inr g1" and "i < length beats"
  shows "\<exists>g2. generate_graph beats t2 = Inr g2 \<and>
           set (neighbors (g1 ! i)) \<subseteq> set (neighbors (g2 ! i))"
proof -
  from generate_graph_threshold_independent [OF assms(2)]
  obtain g2 where g2: "generate_graph beats t2 = Inr g2" ..
  have "set (neighbors (g1 ! i)) \<subseteq> set (neighbors (g2 ! i))"
    using generate_graph_Inr(2) [OF assms(2,3)] generate_graph_Inr(2) [OF g2 assms(3)]
      row_of_mono [OF assms(1), of beats i]
    by auto
  with g2 show ?thesis by blast
qed

theorem threshold_monotone_witness:
  "(60::real) \<le> 150 \<and> 0 < length example_beats \<and>
   (\<exists>g1. generate_graph example_beats 60 = Inr g1 \<and>
     (\<exists>g2. generate_graph example_beats 150 = Inr g2 \<and>
           set (neighbors (g1 ! 0)) \<subseteq> set (neighbors (g2 ! 0))))"
proof -
  have len: "0 < length example_beats" by (simp add: example_beats_length)
  from example_graph_exists obtain g1 where g1: "generate_graph example_beats 60 = Inr g1" ..
  have le: "(60::real) \<le> 150" by simp
  from threshold_monotone [OF le g1 len] g1 len le show ?thesis by blast
qed

section \<open>Binary64 rounding\<close>

lemma round_half_even_of_int: "round_half_even (of_int z) = z"
  by (simp add: round_half_even_def)

lemma round_half_even_bounds:
  "of_int (round_half_even y) \<le> y + 1 / 2" "y - 1 / 2 \<le> of_int (round_half_even y)"
  by (auto simp: round_half_even_def Let_def) linarith+


lemma round_half_even_nonneg: "0 \<le> y \<Longrightarrow> 0 \<le> round_half_even y"
proof -
  assume "0 \<le> y"
  with round_half_even_bounds(2) [of y] have "- 1 < real_of_int (round_half_even y)" by linarith
  then show ?thesis by linarith
qed


lemma fl64_nonneg: "0 \<le> x \<Longrightarrow> 0 \<le> fl64 x"
proof (cases "x = 0")
  case True
  then show ?thesis by (simp add: fl64_def)
next
  case False
  assume "0 \<le> x"
  then have "0 \<le> x / 2 powr of_int (\<lfloor>log 2 \<bar>x\<bar>\<rfloor> - 52)"
    by simp
  then have "0 \<le> round_half_even (x / 2 powr of_int (\<lfloor>log 2 \<bar>x\<bar>\<rfloor> - 52))"
    by (rule round_half_even_nonneg)
  then have "0 \<le> real_of_int (round_half_even (x / 2 powr of_int (\<lfloor>log 2 \<bar>x\<bar>\<rfloor> - 52))) *
      2 powr of_int (\<lfloor>log 2 \<bar>x\<bar>\<rfloor> - 52)"
    by (intro mult_nonneg_nonneg) simp_all
  with False show ?thesis by (simp add: fl64_def Let_def)
qed

lemma fl64_exact_powr:
  assumes "\<bar>m\<bar> < 2 ^ 53"
  shows "fl64 (of_int m * 2 powr of_int k) = of_int m * 2 powr of_int k"
proof (cases "m = 0")
  case True
  then show ?thesis by (simp add: fl64_def)
next
  case False
  define x :: real where "x = of_int m * 2 powr of_int k"
  have x0: "x \<noteq> 0" using False by (simp add: x_def)
  have absx: "\<bar>x\<bar> = of_int \<bar>m\<bar> * 2 powr of_int k" by (simp add: x_def abs_mult)
  have "real_of_int \<bar>m\<bar> < 2 ^ 53" using assms by (metis of_int_less_numeral_power_cancel_iff)
  then have "\<bar>x\<bar> < 2 ^ 53 * 2 powr of_int k" unfolding absx by simp
  also have "\<dots> = 2 powr (53 + of_int k)" by (simp add: powr_add)
  finally have "log 2 \<bar>x\<bar> < 53 + of_int k" using x0 by (subst log_less_iff) simp_all
  then have "\<lfloor>log 2 \<bar>x\<bar>\<rfloor> < 53 + k" by linarith
  define e where "e = \<lfloor>log 2 \<bar>x\<bar>\<rfloor> - 52"
  have ek: "e \<le> k" using \<open>\<lfloor>log 2 \<bar>x\<bar>\<rfloor> < 53 + k\<close> by (simp add: e_def)
  define d where "d = nat (k - e)"
  have kd: "k = e + int d" using ek by (simp add: d_def)
  have "(2::real) powr of_int k = 2 ^ d * 2 powr of_int e"
    by (simp add: kd powr_add powr_realpow)
  then have q: "x / 2 powr of_int e = of_int (m * 2 ^ d)" by (simp add: x_def)
  have "fl64 x = of_int (round_half_even (x / 2 powr of_int e)) * 2 powr of_int e"
    using x0 by (simp add: fl64_def e_def Let_def)
  also have "\<dots> = of_int (m * 2 ^ d) * 2 powr of_int e"
    unfolding q by (simp only: round_half_even_of_int)
  also have "\<dots> = x"
  proof -
    have "x = x / 2 powr of_int e * 2 powr of_int e" by simp
    then show ?thesis by (simp only: q)
  qed
  finally show ?thesis by (simp add: x_def)
qed

lemma fl64_exact: "\<bar>m\<bar> < 2 ^ 53 \<Longrightarrow> fl64 (of_int m / 2 ^ n) = of_int m / 2 ^ n"
  using fl64_exact_powr [of m "- int n"] by (simp add: powr_minus powr_realpow field_simps)

lemma fl64_int: "\<bar>m\<bar> < 2 ^ 53 \<Longrightarrow> fl64 (of_int m) = of_int m"
  using fl64_exact [of m 0] by simp

lemma fl64_eval:
  assumes "2 ^ 52 \<le> \<bar>x\<bar> * 2 ^ n" and "\<bar>x\<bar> * 2 ^ n < 2 ^ 53"
  shows "fl64 x = of_int (round_half_even (x * 2 ^ n)) / 2 ^ n"
proof -
  define c :: real where "c = 2 powr of_int (- int n)"
  have c0: "0 < c" by (simp add: c_def)
  have cinv: "c = 1 / 2 ^ n"
    by (simp add: c_def powr_minus powr_realpow divide_inverse)
  then have cn: "2 ^ n * c = 1" by simp
  have x0: "x \<noteq> 0" using assms(1) by auto
  have xs: "\<bar>x\<bar> = (\<bar>x\<bar> * 2 ^ n) * c"
    using cn by (simp add: mult.assoc)
  have e1: "2 powr of_int (52 - int n) = 2 ^ 52 * c"
  proof -
    have "(2::real) powr of_int (52 - int n) = 2 powr (52 + of_int (- int n))" by simp
    also have "\<dots> = 2 powr 52 * c" unfolding c_def by (rule powr_add)
    finally show ?thesis by simp
  qed
  have e2: "2 powr (of_int (52 - int n) + 1) = 2 ^ 53 * c"
  proof -
    have "(2::real) powr (of_int (52 - int n) + 1) = 2 powr (53 + of_int (- int n))" by simp
    also have "\<dots> = 2 powr 53 * c" unfolding c_def by (rule powr_add)
    finally show ?thesis by simp
  qed
  have lo: "2 powr of_int (52 - int n) \<le> \<bar>x\<bar>"
    unfolding e1 by (subst xs) (rule mult_right_mono [OF assms(1)], simp add: c0 less_imp_le)
  have hi: "\<bar>x\<bar> < 2 powr (of_int (52 - int n) + 1)"
    unfolding e2 by (subst xs) (rule mult_strict_right_mono [OF assms(2) c0])
  have "\<lfloor>log 2 \<bar>x\<bar>\<rfloor> = 52 - int n"
    using x0 lo hi by (subst floor_log_eq_powr_iff) simp_all
  then have "\<lfloor>log 2 \<bar>x\<bar>\<rfloor> - 52 = - int n" by simp
  then have "fl64 x = of_int (round_half_even (x / c)) * c"
    using x0 by (simp add: fl64_def Let_def c_def)
  then show ?thesis by (simp add: cinv)
qed


lemma py_int_of_int: "py_int (of_int z) = z"
  by (simp add: py_int_def)

lemma py_int_zero: "0 \<le> x \<Longrightarrow> x < 1 \<Longrightarrow> py_int x = 0"
  by (simp add: py_int_def floor_eq_iff)




lemma fmul_int: "\<bar>a * b\<bar> < 2 ^ 53 \<Longrightarrow> fmul (of_int a) (of_int b) = of_int (a * b)"
  using fl64_int [of "a * b"] by (simp add: fmul_def)

text \<open>
  The model rounds as Python does: for the float nearest to 0.63 at 100 Hz the first
  product is rounded down and the second one is rounded up to just below 3780; for the
  float nearest to 0.15 at 22050 Hz the first product is rounded up to 9.
\<close>

lemma target_samples_063: "target_samples (5674535530486825 / 2 ^ 53) 100 = 3779"
proof -
  have a: "fmul (5674535530486825 / 2 ^ 53) 60 = 5319877059831398 / 2 ^ 47"
    unfolding fmul_def
    by (subst fl64_eval [where n = 47]) (simp_all add: round_half_even_def)
  have b: "fmul (5319877059831398 / 2 ^ 47) 100 = 8312307905986559 / 2 ^ 41"
    unfolding fmul_def
    by (subst fl64_eval [where n = 41]) (simp_all add: round_half_even_def)
  show ?thesis
    unfolding target_samples_def a b by (simp add: py_int_def)
qed

lemma target_samples_015: "target_samples (5404319552844595 / 2 ^ 55) 22050 = 198450"
proof -
  have a: "fmul (5404319552844595 / 2 ^ 55) 60 = 9"
    unfolding fmul_def
    by (subst fl64_eval [where n = 49]) (simp_all add: round_half_even_def)
  have b: "fmul 9 22050 = 198450"
    using fmul_int [of 9 22050] by simp
  show ?thesis
    unfolding target_samples_def a b using py_int_of_int [of 198450] by simp
qed

text \<open>
  The floats nearest to 0.7 and 0.1 at 10 Hz: the start position is a tie that goes to the
  even significand and gives 7, the sum is rounded below 0.8, and the end position is 7
  as well, as in Python.
\<close>

lemma sample_positions_07_01:
  "py_int (fmul (3152519739159347 / 2 ^ 52) 10) = 7"
  "py_int (fmul (fadd (3152519739159347 / 2 ^ 52) (3602879701896397 / 2 ^ 55)) 10) = 7"
proof -
  have a: "fmul (3152519739159347 / 2 ^ 52) 10 = 7"
    unfolding fmul_def
    by (subst fl64_eval [where n = 50]) (simp_all add: round_half_even_def)
  have b: "fadd (3152519739159347 / 2 ^ 52) (3602879701896397 / 2 ^ 55) = 7205759403792793 / 2 ^ 53"
    unfolding fadd_def
    by (subst fl64_eval [where n = 53]) (simp_all add: round_half_even_def)
  have c: "fmul (7205759403792793 / 2 ^ 53) 10 = 9007199254740991 / 2 ^ 50"
    unfolding fmul_def
    by (subst fl64_eval [where n = 50]) (simp_all add: round_half_even_def)
  show "py_int (fmul (3152519739159347 / 2 ^ 52) 10) = 7"
    unfolding a by (simp add: py_int_def)
  show "py_int (fmul (fadd (3152519739159347 / 2 ^ 52) (3602879701896397 / 2 ^ 55)) 10) = 7"
    unfolding b c by (simp add: py_int_def)
qed


section \<open>Track generation: the loop\<close>

lemma py_slice_same: "py_slice xs a a = []"
  by (simp add: py_slice_def Let_def)



lemma iteration_Inr:
  assumes "iteration src y sr beats p st = Inr st'"
  shows "\<exists>b\<in>set beats. output_segments st' = output_segments st @ [beat_segment y sr b] \<and>
           generated_samples st' = generated_samples st + length (beat_segment y sr b)"
  using assms
  by (auto simp: iteration_def Let_def split: if_splits prod.splits)


lemma loop_exit:
  "\<not> int (generated_samples st) < target \<Longrightarrow>
   generation_loop src y sr beats p target st = Some (Inr st)"
  by (subst generation_loop.simps) simp

lemma loop_step_Inr:
  "int (generated_samples st) < target \<Longrightarrow> iteration src y sr beats p st = Inr st1 \<Longrightarrow>
   generation_loop src y sr beats p target st = generation_loop src y sr beats p target st1"
  by (subst generation_loop.simps) simp

lemma loop_step_Inl:
  "int (generated_samples st) < target \<Longrightarrow> iteration src y sr beats p st = Inl e \<Longrightarrow>
   generation_loop src y sr beats p target st = Some (Inl e)"
  by (subst generation_loop.simps) simp

lemma loop_terminates:
  assumes seg: "\<forall>b\<in>set beats. beat_segment y sr b \<noteq> []"
  shows "\<exists>r. generation_loop src y sr beats p target st = Some r"
proof (induction "nat (target - int (generated_samples st))" arbitrary: st rule: less_induct)
  case less
  show ?case
  proof (cases "int (generated_samples st) < target")
    case False
    then show ?thesis by (simp add: loop_exit)
  next
    case True
    show ?thesis
    proof (cases "iteration src y sr beats p st")
      case (Inl e)
      with True show ?thesis by (simp add: loop_step_Inl)
    next
      case (Inr st1)
      from iteration_Inr [OF Inr] seg
      have "generated_samples st < generated_samples st1" by auto
      with True have "nat (target - int (generated_samples st1)) < nat (target - int (generated_samples st))"
        by linarith
      from less [OF this] loop_step_Inr [OF True Inr] show ?thesis by simp
    qed
  qed
qed




lemma loop_diverges:
  assumes "beats \<noteq> []" and "\<forall>b\<in>set beats. beat_segment y sr b = [] \<and> neighbors b = []"
    and "int (generated_samples st) < target"
  shows "generation_loop src y sr beats p target st = None"
proof -
  have "\<not> int (generated_samples st) < target"
    if "generation_loop src y sr beats p target st = Some r" for r
    using that assms(1,2)
  proof (induction src y sr beats p target st r rule: generation_loop.raw_induct [rotated, consumes 1])
    case (1 loop src y sr beats p target st r)
    show ?case
    proof
      assume lt: "int (generated_samples st) < target"
      define ci where "ci = (if length beats \<le> current_index st then 0 else current_index st)"
      have ci: "ci < length beats" using 1(3) by (auto simp: ci_def)
      then have b: "beat_segment y sr (beats ! ci) = []" "neighbors (beats ! ci) = []"
        using 1(4) by auto
      define st1 where "st1 = \<lparr>rng_state = rng_state st, generated_samples = generated_samples st,
          output_segments = output_segments st @ [[]], current_index = ci + 1\<rparr>"
      have it: "iteration src y sr beats p st = Inr st1"
        unfolding iteration_def Let_def ci_def [symmetric] using ci b by (simp add: st1_def)
      with lt 1(2) have "loop src y sr beats p target st1 = Some r" by simp
      from 1(1) [OF this 1(3) 1(4)] lt show False by (simp add: st1_def)
    qed
  qed
  with assms(3) show ?thesis by (cases "generation_loop src y sr beats p target st") auto
qed



lemma track_unfold:
  "generate_infinite_track src s0 y sr beats T p =
     (case generation_loop src y sr beats p (target_samples T sr) (initial_state s0) of
        None \<Rightarrow> None
      | Some (Inl e) \<Rightarrow> Some (Inl e)
      | Some (Inr st) \<Rightarrow>
          (if output_segments st = [] then Some (Inl ValueError)
           else Some (Inr (if int (length (concat (output_segments st))) > target_samples T sr
                           then py_slice (concat (output_segments st)) 0 (target_samples T sr)
                           else concat (output_segments st)))))"
  by (simp add: generate_infinite_track_def initial_state_def Let_def split: option.splits sum.splits)



lemma track_terminates:
  assumes "\<forall>b\<in>set beats. beat_segment y sr b \<noteq> []"
  shows "\<exists>r. generate_infinite_track src s0 y sr beats T p = Some r"
proof -
  from loop_terminates [OF assms] obtain r where
    "generation_loop src y sr beats p (target_samples T sr) (initial_state s0) = Some r" by blast
  then show ?thesis by (cases r) (simp_all add: track_unfold)
qed

lemma track_diverges:
  assumes "beats \<noteq> []" and "\<forall>b\<in>set beats. beat_segment y sr b = [] \<and> neighbors b = []"
    and "0 < target_samples T sr"
  shows "generate_infinite_track src s0 y sr beats T p = None"
proof -
  have "generation_loop src y sr beats p (target_samples T sr) (initial_state s0) = None"
    using assms by (intro loop_diverges) (simp_all add: initial_state_def)
  then show ?thesis by (simp add: track_unfold)
qed


lemma tiny_bounds:
  assumes "k < 4"
  shows "py_int (fmul (start (tiny_beat k)) 22050) = 0"
    and "py_int (fmul (fadd (start (tiny_beat k)) (duration (tiny_beat k))) 22050) = 0"
proof -
  have mul: "fmul (real j / 2 ^ 17) 22050 = of_int (int j * 22050) / 2 ^ 17" if "j \<le> 4" for j
  proof -
    have "\<bar>int j * 22050\<bar> < 2 ^ 53" using that by simp
    from fl64_exact [OF this, of 17] show ?thesis by (simp add: fmul_def)
  qed
  have zero: "py_int (of_int (int j * 22050) / 2 ^ 17) = 0" if "j \<le> 4" for j
  proof (rule py_int_zero)
    show "(0::real) \<le> of_int (int j * 22050) / 2 ^ 17" by simp
    have "int j * 22050 < 2 ^ 17" using that by simp
    then have "real_of_int (int j * 22050) < 2 ^ 17"
      by (metis of_int_less_numeral_power_cancel_iff)
    then show "real_of_int (int j * 22050) / 2 ^ 17 < 1" by simp
  qed
  have add: "fadd (real k / 2 ^ 17) (1 / 2 ^ 17) = real (Suc k) / 2 ^ 17"
  proof -
    have eq: "real k / 2 ^ 17 + 1 / 2 ^ 17 = of_int (int (Suc k)) / (2::real) ^ 17"
      by (simp add: add_divide_distrib)
    have "fadd (real k / 2 ^ 17) (1 / 2 ^ 17) = fl64 (of_int (int (Suc k)) / 2 ^ 17)"
      unfolding fadd_def by (simp only: eq)
    also have "\<dots> = of_int (int (Suc k)) / 2 ^ 17"
      using assms by (intro fl64_exact) simp
    also have "\<dots> = real (Suc k) / 2 ^ 17" by simp
    finally show ?thesis .
  qed
  have s: "start (tiny_beat k) = real k / 2 ^ 17" and d: "duration (tiny_beat k) = 1 / 2 ^ 17"
    by (simp_all add: tiny_beat_def)
  from assms have k: "k \<le> 4" "Suc k \<le> 4" by simp_all
  show "py_int (fmul (start (tiny_beat k)) 22050) = 0"
    unfolding s mul [OF k(1)] by (rule zero [OF k(1)])
  show "py_int (fmul (fadd (start (tiny_beat k)) (duration (tiny_beat k))) 22050) = 0"
    unfolding s d add mul [OF k(2)] by (rule zero [OF k(2)])
qed

lemma tiny_segment: "k < 4 \<Longrightarrow> beat_segment y 22050 (tiny_beat k) = []"
  by (simp add: beat_segment_def tiny_bounds py_slice_same)

lemma example_bounds:
  assumes "k < 5"
  shows "py_int (fmul (start (example_beat k)) 4) = 2 * int k"
    and "py_int (fmul (fadd (start (example_beat k)) (duration (example_beat k))) 4) = 2 * int k + 2"
proof -
  have s: "start (example_beat k) = real k / 2" and d: "duration (example_beat k) = 1 / 2"
    by (simp_all add: example_beat_def)
  have int_exact: "fl64 (of_int z) = of_int z" if "0 \<le> z" "z \<le> 10" for z
    using that by (intro fl64_int) simp
  have "fmul (real k / 2) 4 = fl64 (of_int (2 * int k))"
    unfolding fmul_def by simp
  also have "\<dots> = of_int (2 * int k)" using assms by (intro int_exact) simp_all
  finally show "py_int (fmul (start (example_beat k)) 4) = 2 * int k"
    unfolding s by (simp only: py_int_of_int)
  have eq: "real k / 2 + 1 / 2 = of_int (int k + 1) / (2::real) ^ 1"
    by (simp add: add_divide_distrib)
  have "fadd (real k / 2) (1 / 2) = fl64 (of_int (int k + 1) / 2 ^ 1)"
    unfolding fadd_def by (simp only: eq)
  also have "\<dots> = of_int (int k + 1) / 2 ^ 1"
    using assms by (intro fl64_exact) simp
  finally have a: "fadd (real k / 2) (1 / 2) = of_int (int k + 1) / 2 ^ 1" .
  have "of_int (int k + 1) / 2 ^ 1 * 4 = (of_int (2 * int k + 2) :: real)" by simp
  then have "fmul (of_int (int k + 1) / 2 ^ 1) 4 = fl64 (of_int (2 * int k + 2))"
    unfolding fmul_def by (rule arg_cong)
  also have "\<dots> = of_int (2 * int k + 2)" using assms by (intro int_exact) simp_all
  finally show "py_int (fmul (fadd (start (example_beat k)) (duration (example_beat k))) 4) = 2 * int k + 2"
    unfolding s d a by (simp only: py_int_of_int)
qed

lemma example_segments:
  "beat_segment example_samples 4 (example_beat 0) = [1, 2]"
  "beat_segment example_samples 4 (example_beat 1) = [3, 4]"
  "beat_segment example_samples 4 (example_beat 2) = [5, 6]"
  "beat_segment example_samples 4 (example_beat 3) = [7, 8]"
  "beat_segment example_samples 4 (example_beat 4) = [9, 10]"
  by (simp_all add: beat_segment_def example_bounds example_samples_def py_slice_def)

lemma loop_sim_dir:
  assumes "generation_loop src1 y sr beats p1 target a = Some r1"
    and "R a b"
    and "\<forall>a b. R a b \<longrightarrow> generated_samples a = generated_samples b \<and>
           rel_sum (=) R (iteration src1 y sr beats p1 a) (iteration src2 y sr beats p2 b)"
  shows "\<exists>r2. generation_loop src2 y sr beats p2 target b = Some r2 \<and> rel_sum (=) R r1 r2"
  using assms
proof (induction src1 y sr beats p1 target a r1 arbitrary: b
    rule: generation_loop.raw_induct [rotated, consumes 1])
  case (1 loop src1 y sr beats p1 target a r1)
  from 1(3,4) have gen: "generated_samples a = generated_samples b"
    and it: "rel_sum (=) R (iteration src1 y sr beats p1 a) (iteration src2 y sr beats p2 b)"
    by auto
  show ?case
  proof (cases "int (generated_samples a) < target")
    case False
    with 1(2) have "r1 = Inr a" by simp
    moreover from False gen have "generation_loop src2 y sr beats p2 target b = Some (Inr b)"
      by (simp add: loop_exit)
    ultimately show ?thesis using 1(3) by simp
  next
    case True
    then have Tb: "int (generated_samples b) < target" using gen by simp
    show ?thesis
    proof (cases "iteration src1 y sr beats p1 a")
      case (Inl e)
      with it have "iteration src2 y sr beats p2 b = Inl e"
        by (cases "iteration src2 y sr beats p2 b") simp_all
      with Tb have "generation_loop src2 y sr beats p2 target b = Some (Inl e)"
        by (simp add: loop_step_Inl)
      moreover from Inl True 1(2) have "r1 = Inl e" by simp
      ultimately show ?thesis by simp
    next
      case (Inr a1)
      with it obtain b1 where b1: "iteration src2 y sr beats p2 b = Inr b1" and R1: "R a1 b1"
        by (cases "iteration src2 y sr beats p2 b") simp_all
      from Inr True 1(2) have "loop src1 y sr beats p1 target a1 = Some r1" by simp
      from 1(1) [OF this R1 1(4)] loop_step_Inr [OF Tb b1] show ?thesis by simp
    qed
  qed
qed

lemma loop_sim:
  assumes "R a b"
    and step: "\<forall>a b. R a b \<longrightarrow> generated_samples a = generated_samples b \<and>
           rel_sum (=) R (iteration src1 y sr beats p1 a) (iteration src2 y sr beats p2 b)"
  shows "rel_option (rel_sum (=) R)
           (generation_loop src1 y sr beats p1 target a) (generation_loop src2 y sr beats p2 target b)"
proof (cases "generation_loop src1 y sr beats p1 target a")
  case (Some r1)
  from loop_sim_dir [OF Some assms] Some show ?thesis by auto
next
  case None
  have "generation_loop src2 y sr beats p2 target b = None"
  proof (rule ccontr)
    assume "generation_loop src2 y sr beats p2 target b \<noteq> None"
    then obtain r2 where r2: "generation_loop src2 y sr beats p2 target b = Some r2" by auto
    have flip: "\<forall>b a. R\<inverse>\<inverse> b a \<longrightarrow> generated_samples b = generated_samples a \<and>
           rel_sum (=) R\<inverse>\<inverse> (iteration src2 y sr beats p2 b) (iteration src1 y sr beats p1 a)"
    proof (intro allI impI)
      fix b a assume "R\<inverse>\<inverse> b a"
      then have "R a b" by simp
      with step have g: "generated_samples a = generated_samples b"
        and r: "rel_sum (=) R (iteration src1 y sr beats p1 a) (iteration src2 y sr beats p2 b)"
        by auto
      from r have "rel_sum (=) R\<inverse>\<inverse> (iteration src2 y sr beats p2 b) (iteration src1 y sr beats p1 a)"
        by (cases "iteration src1 y sr beats p1 a"; cases "iteration src2 y sr beats p2 b") simp_all
      with g show "generated_samples b = generated_samples a \<and>
           rel_sum (=) R\<inverse>\<inverse> (iteration src2 y sr beats p2 b) (iteration src1 y sr beats p1 a)"
        by simp
    qed
    have "R\<inverse>\<inverse> b a" using assms(1) by simp
    from loop_sim_dir [OF r2 this flip] None show False by auto
  qed
  with None show ?thesis by simp
qed

lemma iteration_same_draws:
  assumes sd: "same_draws Q src1 src2" and R: "state_rel Q a b"
  shows "rel_sum (=) (state_rel Q) (iteration src1 y sr beats p a) (iteration src2 y sr beats p b)"
proof -
  from R have eq: "generated_samples a = generated_samples b" "output_segments a = output_segments b"
    "current_index a = current_index b" and Q: "Q (rng_state a) (rng_state b)"
    by (simp_all add: state_rel_def)
  define ci where "ci = (if length beats \<le> current_index b then 0 else current_index b)"
  define nbrs where "nbrs = neighbors (beats ! ci)"
  obtain u s1 where r1: "random_random src1 (rng_state a) = (u, s1)"
    by (cases "random_random src1 (rng_state a)")
  obtain u' t1 where r2: "random_random src2 (rng_state b) = (u', t1)"
    by (cases "random_random src2 (rng_state b)")
  from sd Q r1 r2 have u: "u' = u" and Q1: "Q s1 t1"
    unfolding same_draws_def by (metis fst_conv, metis snd_conv)
  obtain k s2 where c1: "random_choice src1 s1 (length nbrs) = (k, s2)"
    by (cases "random_choice src1 s1 (length nbrs)")
  obtain k' t2 where c2: "random_choice src2 t1 (length nbrs) = (k', t2)"
    by (cases "random_choice src2 t1 (length nbrs)")
  from sd Q1 c1 c2 have k: "k' = k" and Q2: "Q s2 t2"
    unfolding same_draws_def by (metis fst_conv, metis snd_conv)
  show ?thesis
    unfolding iteration_def Let_def eq ci_def [symmetric]
    using r1 r2 c1 c2 u k Q Q1 Q2
    by (simp add: nbrs_def [symmetric] state_rel_def)
qed

lemma track_sim:
  assumes "rel_option (rel_sum (=) R)
      (generation_loop src1 y sr beats p1 (target_samples T sr) (initial_state s1))
      (generation_loop src2 y sr beats p2 (target_samples T sr) (initial_state s2))"
    and "\<And>a b. R a b \<Longrightarrow> output_segments a = output_segments b"
  shows "generate_infinite_track src1 s1 y sr beats T p1 = generate_infinite_track src2 s2 y sr beats T p2"
  using assms
  by (auto simp: track_unfold option_rel_Some1 elim!: option.rel_cases rel_sum.cases)

lemma track_same_draws:
  assumes "same_draws Q src1 src2" and "Q s1 s2"
  shows "generate_infinite_track src1 s1 y sr beats T p = generate_infinite_track src2 s2 y sr beats T p"
proof (rule track_sim [where R = "state_rel Q"])
  show "rel_option (rel_sum (=) (state_rel Q))
      (generation_loop src1 y sr beats p (target_samples T sr) (initial_state s1))
      (generation_loop src2 y sr beats p (target_samples T sr) (initial_state s2))"
  proof (rule loop_sim)
    show "state_rel Q (initial_state s1) (initial_state s2)"
      using assms(2) by (simp add: state_rel_def initial_state_def)
    show "\<forall>a b. state_rel Q a b \<longrightarrow> generated_samples a = generated_samples b \<and>
        rel_sum (=) (state_rel Q) (iteration src1 y sr beats p a) (iteration src2 y sr beats p b)"
      using iteration_same_draws [OF assms(1)] by (simp add: state_rel_def)
  qed
qed (simp add: state_rel_def)

lemma const_source_simps:
  "random_random (const_source u k) s = (u, s)"
  "random_choice (const_source u k) s n = (k, s)"
  by (simp_all add: const_source_def)

lemma beat_segment_neighbors [simp]:
  "beat_segment y sr (b\<lparr>neighbors := ns\<rparr>) = beat_segment y sr b"
  by (simp add: beat_segment_def)

lemma example_beat_neighbors [simp]: "neighbors (example_beat k) = []"
  by (simp add: example_beat_def)

lemma example_first_iteration:
  "iteration (const_source (1/2) 0) example_samples 4 example_graph (1/2) (initial_state ()) =
     Inr \<lparr>rng_state = (), generated_samples = 2, output_segments = [[1, 2]], current_index = 1\<rparr>"
  by (simp add: iteration_def Let_def initial_state_def example_graph_def const_source_simps
      example_segments)

lemma example_products:
  "fmul (3 / 256) 60 = 45 / 64" "fmul (45 / 64) 4 = 45 / 16"
  using fl64_exact [of 45 6] fl64_exact [of 45 4] by (simp_all add: fmul_def)

lemma example_target: "target_samples (3 / 256) 4 = 2"
  by (simp add: target_samples_def example_products py_int_def)

lemma target_five_minutes: "target_samples 5 22050 = 6615000" "target_samples 5 4 = 1200"
proof -
  have "fmul 5 60 = 300" using fmul_int [of 5 60] by simp
  moreover have "fmul 300 22050 = 6615000" using fmul_int [of 300 22050] by simp
  moreover have "fmul 300 4 = 1200" using fmul_int [of 300 4] by simp
  ultimately show "target_samples 5 22050 = 6615000" "target_samples 5 4 = 1200"
    using py_int_of_int [of 6615000] py_int_of_int [of 1200] by (simp_all add: target_samples_def)
qed


lemma example_track:
  "generate_infinite_track (const_source (1/2) 0) () example_samples 4 example_graph (3/256) (1/2) =
     Some (Inr [1, 2])"
proof -
  let ?st1 = "\<lparr>rng_state = (), generated_samples = 2, output_segments = [[1, 2::real]],
      current_index = 1\<rparr>"
  have "generation_loop (const_source (1/2) 0) example_samples 4 example_graph (1/2) 2 (initial_state ()) =
      generation_loop (const_source (1/2) 0) example_samples 4 example_graph (1/2) 2 ?st1"
    by (rule loop_step_Inr) (simp_all add: initial_state_def example_first_iteration [unfolded initial_state_def])
  also have "\<dots> = Some (Inr ?st1)"
    by (rule loop_exit) simp
  finally have "generation_loop (const_source (1/2) 0) example_samples 4 example_graph (1/2)
      (target_samples (3 / 256) 4) (initial_state ()) = Some (Inr ?st1)"
    by (simp only: example_target)
  then show ?thesis
    unfolding track_unfold by (simp only: example_target) (simp add: py_slice_def)
qed



lemma example_graph_segments: "\<forall>b\<in>set example_graph. beat_segment example_samples 4 b \<noteq> []"
  by (simp add: example_graph_def example_segments del: One_nat_def)


text \<open>
  Claim C2, amended: when every beat of the sequence spans at least one sample, the
  generation loop ends after finitely many iterations, from every state, for every random
  source, every branch probability and every target, and so does
  \<^verbatim>\<open>generate_infinite_track\<close> (with an output or with an exception).
\<close>

theorem generation_terminates:
  assumes "\<forall>b\<in>set beats. beat_segment y sr b \<noteq> []"
  shows "(\<exists>r. generation_loop src y sr beats p target st = Some r) \<and>
         (\<exists>r. generate_infinite_track src s0 y sr beats T p = Some r)"
  by (intro conjI loop_terminates track_terminates assms)

text \<open>
  The example graph at 4 Hz satisfies the hypothesis of the amended claim C2.
\<close>

theorem generation_terminates_witness:
  "(\<exists>r. generation_loop (const_source (1/2) 0) example_samples 4 example_graph (1/2) 1200 (initial_state ())
      = Some r) \<and>
   (\<exists>r. generate_infinite_track (const_source (1/2) 0) () example_samples 4 example_graph 5 (1/2) = Some r)"
  by (rule generation_terminates [OF example_graph_segments])

text \<open>
  Claim C2 as stated fails: two beats of positive duration (1/131072 seconds each), a
  branch probability of 1/2 and a target of five minutes at 22050 Hz; no beat spans a
  sample, and the loop never ends.
\<close>

theorem generation_terminates_counterexample:
  "0 < duration (tiny_beat 0) \<and> 0 < duration (tiny_beat 1) \<and>
   generation_loop (const_source (1/2) 0) example_samples 22050 [tiny_beat 0, tiny_beat 1] (1/2)
     (target_samples 5 22050) (initial_state ()) = None \<and>
   generate_infinite_track (const_source (1/2) 0) () example_samples 22050 [tiny_beat 0, tiny_beat 1] 5 (1/2)
     = None"
proof -
  have seg: "\<forall>b\<in>set [tiny_beat 0, tiny_beat 1].
      beat_segment example_samples 22050 b = [] \<and> neighbors b = []"
    by (simp add: tiny_segment) (simp add: tiny_beat_def)
  have pos: "0 < target_samples 5 22050" by (simp add: target_five_minutes)
  have ne: "[tiny_beat 0, tiny_beat 1] \<noteq> []" by simp
  have "generation_loop (const_source (1/2) 0) example_samples 22050 [tiny_beat 0, tiny_beat 1] (1/2)
     (target_samples 5 22050) (initial_state ()) = None"
    using pos by (intro loop_diverges [OF ne seg]) (simp add: initial_state_def)
  moreover have "generate_infinite_track (const_source (1/2) 0) () example_samples 22050
      [tiny_beat 0, tiny_beat 1] 5 (1/2) = None"
    by (rule track_diverges [OF ne seg pos])
  ultimately show ?thesis by (simp add: tiny_beat_def)
qed





section \<open>The pipeline, reproducibility and empty segments\<close>











lemma iteration_empty_segment:
  assumes "current_index st < length beats"
    and "beat_segment y sr (beats ! current_index st) = []"
    and "iteration src y sr beats p st = Inr st'"
  shows "generated_samples st' = generated_samples st \<and>
         output_segments st' = output_segments st @ [[]]"
  using assms by (auto simp: iteration_def Let_def split: if_splits prod.splits)

lemma counting_source_simps:
  "random_random (counting_source u k) s = (u, Suc s)"
  "random_choice (counting_source u k) s n = (k, Suc s)"
  by (simp_all add: counting_source_def)

lemma const_counting_same_draws:
  "same_draws (\<lambda>a b. True) (const_source u k) (counting_source u k)"
  by (simp add: same_draws_def const_source_simps counting_source_simps)

text \<open>
  Claim C9: two runs of \<^verbatim>\<open>generate_infinite_track\<close> on the same samples, sample rate,
  beats with their neighbour lists, target duration and branch probability, whose random
  sources deliver identical streams of draws (whatever their internal states are), return
  the same result: the same output samples, the same exception, or both never return.
\<close>

theorem reproducible_output:
  assumes "same_draws Q src1 src2" and "Q s1 s2"
  shows "generate_infinite_track src1 s1 y sr beats T p =
         generate_infinite_track src2 s2 y sr beats T p"
  using assms by (rule track_same_draws)

text \<open>
  Claim C9 at the example graph: a source without state and one that counts its draws.
\<close>

theorem reproducible_output_witness:
  "same_draws (\<lambda>a b. True) (const_source (1/2) 0) (counting_source (1/2) 0) \<and>
   generate_infinite_track (counting_source (1/2) 0) 7 example_samples 4 example_graph (3/256) (1/2) =
     Some (Inr [1, 2])"
proof -
  have "generate_infinite_track (const_source (1/2) 0) () example_samples 4 example_graph (3/256) (1/2) =
      generate_infinite_track (counting_source (1/2) 0) 7 example_samples 4 example_graph (3/256) (1/2)"
    by (rule reproducible_output [OF const_counting_same_draws]) simp
  with example_track const_counting_same_draws show ?thesis by simp
qed

text \<open>
  Claim C10: there are a beat of positive duration and a positive sample rate with
  \<^verbatim>\<open>int(start * sr) == int((start + duration) * sr)\<close>; whenever these two are equal the
  segment of the beat is empty; and an iteration of the loop on a beat with an empty
  segment appends the empty segment and leaves \<^verbatim>\<open>generated_samples\<close> as it was.
\<close>

theorem zero_sample_beat:
  "(\<exists>(b::beat) sr. 0 < duration b \<and> 0 < sr \<and>
      py_int (fmul (start b) sr) = py_int (fmul (fadd (start b) (duration b)) sr)) \<and>
   (\<forall>(b::beat) sr y.
      py_int (fmul (start b) sr) = py_int (fmul (fadd (start b) (duration b)) sr) \<longrightarrow>
      beat_segment y sr b = []) \<and>
   (\<forall>st'. current_index st < length beats \<longrightarrow>
      beat_segment y sr (beats ! current_index st) = [] \<longrightarrow>
      iteration src y sr beats p st = Inr st' \<longrightarrow>
      generated_samples st' = generated_samples st \<and>
      output_segments st' = output_segments st @ [[]])"
proof (intro conjI allI impI)
  have "0 < duration (tiny_beat 0)" by (simp add: tiny_beat_def)
  then show "\<exists>(b::beat) sr. 0 < duration b \<and> 0 < sr \<and>
      py_int (fmul (start b) sr) = py_int (fmul (fadd (start b) (duration b)) sr)"
    by (intro exI [of _ "tiny_beat 0"] exI [of _ 22050]) (simp add: tiny_bounds)
next
  fix b :: beat and sr :: real and y :: "real list"
  assume "py_int (fmul (start b) sr) = py_int (fmul (fadd (start b) (duration b)) sr)"
  then show "beat_segment y sr b = []" by (simp add: beat_segment_def py_slice_same)
next
  fix st'
  assume a: "current_index st < length beats"
    "beat_segment y sr (beats ! current_index st) = []"
    "iteration src y sr beats p st = Inr st'"
  from iteration_empty_segment [OF a]
  show "generated_samples st' = generated_samples st"
    and "output_segments st' = output_segments st @ [[]]" by simp_all
qed

lemma tiny_first_iteration:
  "iteration (const_source (1/2) 0) example_samples 22050 [tiny_beat 0, tiny_beat 1] (1/2) (initial_state ()) =
     Inr \<lparr>rng_state = (), generated_samples = 0, output_segments = [[]], current_index = 1\<rparr>"
proof -
  have "neighbors (tiny_beat 0) = []" by (simp add: tiny_beat_def)
  then show ?thesis
    by (simp add: iteration_def Let_def initial_state_def tiny_segment)
qed

text \<open>
  Claim C10 at a beat of 1/131072 seconds and 22050 Hz.
\<close>

theorem zero_sample_beat_witness:
  "0 < duration (tiny_beat 0) \<and>
   py_int (fmul (start (tiny_beat 0)) 22050) =
     py_int (fmul (fadd (start (tiny_beat 0)) (duration (tiny_beat 0))) 22050) \<and>
   beat_segment example_samples 22050 (tiny_beat 0) = [] \<and>
   iteration (const_source (1/2) 0) example_samples 22050 [tiny_beat 0, tiny_beat 1] (1/2) (initial_state ()) =
     Inr \<lparr>rng_state = (), generated_samples = 0, output_segments = [[]], current_index = 1\<rparr> \<and>
   generated_samples \<lparr>rng_state = (), generated_samples = 0, output_segments = [[]], current_index = 1\<rparr> =
     generated_samples (initial_state ())"
proof -
  have eq: "py_int (fmul (start (tiny_beat 0)) 22050) =
      py_int (fmul (fadd (start (tiny_beat 0)) (duration (tiny_beat 0))) 22050)"
    by (simp add: tiny_bounds)
  note inst = zero_sample_beat [of "initial_state ()" "[tiny_beat 0, tiny_beat 1]" example_samples 22050
      "const_source (1/2) 0" "1/2"]
  from inst eq have seg: "beat_segment example_samples 22050 (tiny_beat 0) = []" by blast
  have ci: "current_index (initial_state ()) < length [tiny_beat 0, tiny_beat 1]"
    by (simp add: initial_state_def)
  have seg': "beat_segment example_samples 22050
      ([tiny_beat 0, tiny_beat 1] ! current_index (initial_state ())) = []"
    using seg by (simp add: initial_state_def)
  from inst ci seg' tiny_first_iteration
  have "generated_samples \<lparr>rng_state = (), generated_samples = 0, output_segments = [[]],
      current_index = 1\<rparr> = generated_samples (initial_state ())"
    by blast
  with eq seg tiny_first_iteration show ?thesis by (simp add: tiny_beat_def)
qed






end
